theory Spec2Isabelle
  imports Main "HOL-Library.Word" "HOL-Library.AList"
begin

section \<open>Data model\<close>

text \<open>
  The Go types of \<^verbatim>\<open>store/redis/redis.go\<close>. A Go \<^verbatim>\<open>[]byte\<close> is a list of bytes
  that may also be \<^verbatim>\<open>nil\<close>, so it is a \<open>byte list option\<close> (\<open>None\<close> is the nil slice,
  \<open>Some []\<close> the empty one). A Go \<^verbatim>\<open>string\<close> is a byte sequence: \<open>string\<close>.
\<close>

type_synonym byte = "8 word"
type_synonym uint64 = "64 word"
type_synonym bytes = "byte list option"

text \<open>\<^verbatim>\<open>type versionedValue struct { Value []byte; Version uint64 }\<close>\<close>

record versionedValue =
  Value :: bytes
  Version :: uint64

text \<open>\<^verbatim>\<open>store.KVPair{Key, Value, LastIndex}\<close>, as the adapter fills it.\<close>

record KVPair =
  Key :: string
  Value :: bytes
  LastIndex :: uint64

text \<open>\<^verbatim>\<open>store.WriteOptions\<close>: the adapter reads the field \<^verbatim>\<open>TTL\<close> (a \<^verbatim>\<open>time.Duration\<close>) only.\<close>

record WriteOptions =
  TTL :: int

text \<open>
  The error values the adapter returns or compares with. \<open>RedisNil\<close> is the client
  library's \<^verbatim>\<open>redis.Nil\<close> (no such key); \<open>ErrRedis\<close> stands for every other error of
  the engine or the transport, which the adapter passes on unchanged.
\<close>

datatype error =
    ErrKeyNotFound
  | ErrKeyModified
  | ErrNotImplemented
  | ErrMultipleEndpointsUnsupported
  | ErrTLSUnsupported
  | RedisNil
  | ErrRedis

text \<open>A call either returns or panics.\<close>

datatype 'a outcome = Done 'a | Panic

section \<open>The versioned value codec\<close>

subsection \<open>Standard base64 with padding, as Go's \<^verbatim>\<open>encoding/json\<close> writes a byte slice\<close>

definition b64_alphabet :: string where
  "b64_alphabet = ''ABCDEFGHIJKLMNOPQRSTUVWXYZabcdefghijklmnopqrstuvwxyz0123456789+/''"

definition b64_char :: "nat \<Rightarrow> char" where
  "b64_char i = b64_alphabet ! i"

primrec index_of :: "'a \<Rightarrow> 'a list \<Rightarrow> nat option" where
  "index_of c [] = None"
| "index_of c (x # xs) = (if x = c then Some 0 else map_option Suc (index_of c xs))"

definition b64_index :: "char \<Rightarrow> nat option" where
  "b64_index c = index_of c b64_alphabet"

text \<open>
  Three bytes are 24 bits, read as four groups of six bits (and back).
\<close>

definition sextet0 :: "byte \<Rightarrow> nat" where
  "sextet0 a = unat a div 4"

definition sextet1 :: "byte \<Rightarrow> byte \<Rightarrow> nat" where
  "sextet1 a b = (unat a mod 4) * 16 + unat b div 16"

definition sextet2 :: "byte \<Rightarrow> byte \<Rightarrow> nat" where
  "sextet2 b c = (unat b mod 16) * 4 + unat c div 64"

definition sextet3 :: "byte \<Rightarrow> nat" where
  "sextet3 c = unat c mod 64"

definition octet0 :: "nat \<Rightarrow> nat \<Rightarrow> byte" where
  "octet0 s0 s1 = of_nat (s0 * 4 + s1 div 16)"

definition octet1 :: "nat \<Rightarrow> nat \<Rightarrow> byte" where
  "octet1 s1 s2 = of_nat ((s1 mod 16) * 16 + s2 div 4)"

definition octet2 :: "nat \<Rightarrow> nat \<Rightarrow> byte" where
  "octet2 s2 s3 = of_nat ((s2 mod 4) * 64 + s3)"

text \<open>A final group of one or two bytes is filled with zero bits and padded with \<open>=\<close>.\<close>

fun b64_encode :: "byte list \<Rightarrow> string" where
  "b64_encode [] = []"
| "b64_encode [a] =
     [b64_char (sextet0 a), b64_char (sextet1 a 0), CHR ''='', CHR ''='']"
| "b64_encode [a, b] =
     [b64_char (sextet0 a), b64_char (sextet1 a b), b64_char (sextet2 b 0), CHR ''='']"
| "b64_encode (a # b # c # rest) =
     [b64_char (sextet0 a), b64_char (sextet1 a b), b64_char (sextet2 b c),
      b64_char (sextet3 c)]
     @ b64_encode rest"

text \<open>
  The decoder reads quanta of four characters; only the last quantum may be padded.
  A character outside the alphabet, a length that is not a multiple of four or a
  misplaced \<open>=\<close> is an error (\<open>None\<close>).
\<close>

fun b64_decode :: "string \<Rightarrow> byte list option" where
  "b64_decode [] = Some []"
| "b64_decode (c0 # c1 # c2 # c3 # rest) =
     (if rest = [] \<and> c3 = CHR ''='' then
        (if c2 = CHR ''='' then
           (case (b64_index c0, b64_index c1) of
              (Some s0, Some s1) \<Rightarrow> Some [octet0 s0 s1]
            | _ \<Rightarrow> None)
         else
           (case (b64_index c0, b64_index c1, b64_index c2) of
              (Some s0, Some s1, Some s2) \<Rightarrow> Some [octet0 s0 s1, octet1 s1 s2]
            | _ \<Rightarrow> None))
      else
        (case (b64_index c0, b64_index c1, b64_index c2, b64_index c3) of
           (Some s0, Some s1, Some s2, Some s3) \<Rightarrow>
             map_option ((@) [octet0 s0 s1, octet1 s1 s2, octet2 s2 s3]) (b64_decode rest)
         | _ \<Rightarrow> None))"
| "b64_decode _ = None"

subsection \<open>Decimal numerals, as Go writes and reads a \<^verbatim>\<open>uint64\<close>\<close>

definition digit_char :: "nat \<Rightarrow> char" where
  "digit_char d = char_of (48 + d)"

definition is_digit :: "char \<Rightarrow> bool" where
  "is_digit c = (48 \<le> (of_char c :: nat) \<and> (of_char c :: nat) \<le> 57)"

definition digit_val :: "char \<Rightarrow> nat" where
  "digit_val c = of_char c - 48"

fun format_uint :: "nat \<Rightarrow> string" where
  "format_uint n =
     (if n < 10 then [digit_char n] else format_uint (n div 10) @ [digit_char (n mod 10)])"

definition digits_value :: "string \<Rightarrow> nat" where
  "digits_value s = foldl (\<lambda>acc c. acc * 10 + digit_val c) 0 s"

text \<open>
  A JSON number that fits the field: digits only, no leading zero, below \<open>2 ^ 64\<close>.
\<close>

definition parse_uint64 :: "string \<Rightarrow> uint64 option" where
  "parse_uint64 s =
     (if s = [] \<or> \<not> list_all is_digit s \<or> (1 < length s \<and> hd s = CHR ''0'') then None
      else if digits_value s < 2 ^ 64 then Some (of_nat (digits_value s))
      else None)"

subsection \<open>The JSON object of a \<open>versionedValue\<close>\<close>

text \<open>
  \<^verbatim>\<open>json.Marshal\<close> on the struct writes the fields in declaration order, the byte slice
  as a base64 string (\<^verbatim>\<open>null\<close> for a nil slice) and the version as a decimal numeral.
  It has no error case for this struct.
\<close>

definition json_Marshal :: "versionedValue \<Rightarrow> string" where
  \<open>json_Marshal v =
     ''{"Value":''
     @ (case versionedValue.Value v of
          None \<Rightarrow> ''null''
        | Some bs \<Rightarrow> ''"'' @ b64_encode bs @ ''"'')
     @ '',"Version":'' @ format_uint (unat (Version v)) @ ''}''\<close>

definition strip_prefix :: "string \<Rightarrow> string \<Rightarrow> string option" where
  "strip_prefix p s = (if take (length p) s = p then Some (drop (length p) s) else None)"

definition parse_bytes :: "string \<Rightarrow> (bytes \<times> string) option" where
  \<open>parse_bytes s =
     (if take 4 s = ''null'' then Some (None, drop 4 s)
      else
        (case s of
           [] \<Rightarrow> None
         | c # r \<Rightarrow>
             if c = CHR ''"'' then
               (case dropWhile (\<lambda>x. x \<noteq> CHR ''"'') r of
                  [] \<Rightarrow> None
                | _ # r' \<Rightarrow>
                    (case b64_decode (takeWhile (\<lambda>x. x \<noteq> CHR ''"'') r) of
                       None \<Rightarrow> None
                     | Some bs \<Rightarrow> Some (Some bs, r')))
             else None))\<close>

text \<open>
  \<^verbatim>\<open>json.Unmarshal\<close> into a fresh struct, for the texts of the shape that
  \<^verbatim>\<open>json.Marshal\<close> writes (the two fields in order, no white space, no escapes): the
  adapter stores nothing else. \<open>None\<close> is the decoder's error. Go's decoder also accepts
  other spellings of the object (white space, another field order, a missing field);
  the model answers \<open>None\<close> for them, and no result below rests on that answer: every
  statement about a stored text assumes that it decodes.
\<close>

definition json_Unmarshal :: "string \<Rightarrow> versionedValue option" where
  \<open>json_Unmarshal s =
     (case strip_prefix ''{"Value":'' s of
        None \<Rightarrow> None
      | Some r1 \<Rightarrow>
          (case parse_bytes r1 of
             None \<Rightarrow> None
           | Some (val, r2) \<Rightarrow>
               (case strip_prefix '',"Version":'' r2 of
                  None \<Rightarrow> None
                | Some r3 \<Rightarrow>
                    if dropWhile is_digit r3 = ''}'' then
                      (case parse_uint64 (takeWhile is_digit r3) of
                         None \<Rightarrow> None
                       | Some n \<Rightarrow> Some \<lparr>versionedValue.Value = val, Version = n\<rparr>)
                    else None)))\<close>

text \<open>
  \<^verbatim>\<open>func (v *versionedValue) marshal() []byte\<close>: the panic branch is dead, since
  \<^verbatim>\<open>json.Marshal\<close> cannot fail here.
\<close>

definition marshal :: "versionedValue \<Rightarrow> string" where
  "marshal v = json_Marshal v"

text \<open>\<^verbatim>\<open>func (v *versionedValue) unmarshal(in []byte)\<close>: panics when decoding fails.\<close>

definition unmarshal :: "string \<Rightarrow> versionedValue outcome" where
  "unmarshal inp = (case json_Unmarshal inp of None \<Rightarrow> Panic | Some v \<Rightarrow> Done v)"

section \<open>The engine\<close>

text \<open>
  The Redis node that \<^verbatim>\<open>r.client\<close> talks to, seen through the commands the adapter
  sends. It holds its entries in the order in which a scan visits them, each with the
  stored text and the expiration it was written with (\<open>0\<close>: none). \<open>down\<close> says that the
  node cannot be reached: then every command fails with \<open>ErrRedis\<close>. \<open>matches\<close> is the
  node's pattern matcher (\<open>matches e p k\<close>: key \<open>k\<close> matches pattern \<open>p\<close>).
\<close>

record engine =
  cells :: "(string \<times> string \<times> int) list"
  down :: bool
  matches :: "string \<Rightarrow> string \<Rightarrow> bool"

definition stored :: "engine \<Rightarrow> string \<Rightarrow> string option" where
  "stored e k = map_option fst (map_of (cells e) k)"

text \<open>\<^verbatim>\<open>client.Set(key, value, expiration).Err()\<close>\<close>

definition client_Set :: "engine \<Rightarrow> string \<Rightarrow> string \<Rightarrow> int \<Rightarrow> error + engine" where
  "client_Set e k v expiration =
     (if down e then Inl ErrRedis
      else Inr (e\<lparr>cells := AList.update k (v, expiration) (cells e)\<rparr>))"

text \<open>\<^verbatim>\<open>client.Get(key).Bytes()\<close>: \<^verbatim>\<open>redis.Nil\<close> when the key holds nothing.\<close>

definition client_Get :: "engine \<Rightarrow> string \<Rightarrow> error + string" where
  "client_Get e k =
     (if down e then Inl ErrRedis
      else (case stored e k of None \<Rightarrow> Inl RedisNil | Some v \<Rightarrow> Inr v))"

text \<open>\<^verbatim>\<open>client.Del(keys...).Err()\<close>: the command needs at least one key.\<close>

definition client_Del :: "engine \<Rightarrow> string list \<Rightarrow> error + engine" where
  "client_Del e ks =
     (if down e \<or> ks = [] then Inl ErrRedis
      else Inr (e\<lparr>cells := filter (\<lambda>c. fst c \<notin> set ks) (cells e)\<rparr>))"

text \<open>\<^verbatim>\<open>client.Exists(key).Result()\<close>\<close>

definition client_Exists :: "engine \<Rightarrow> string \<Rightarrow> error + bool" where
  "client_Exists e k = (if down e then Inl ErrRedis else Inr (stored e k \<noteq> None))"

text \<open>
  \<^verbatim>\<open>client.SetNX(key, value, expiration)\<close>: writes only when the key holds nothing; the
  reply says whether it wrote.
\<close>

definition client_SetNX :: "engine \<Rightarrow> string \<Rightarrow> string \<Rightarrow> int \<Rightarrow> error + bool \<times> engine" where
  "client_SetNX e k v expiration =
     (if down e then Inl ErrRedis
      else if stored e k \<noteq> None then Inr (False, e)
      else Inr (True, e\<lparr>cells := AList.update k (v, expiration) (cells e)\<rparr>))"

text \<open>
  \<^verbatim>\<open>client.MGet(keys...).Result()\<close>: one slot per key, in order, \<^verbatim>\<open>nil\<close> (\<open>None\<close>) where
  the key holds nothing. The command needs at least one key.
\<close>

definition client_MGet :: "engine \<Rightarrow> string list \<Rightarrow> error + string option list" where
  "client_MGet e ks =
     (if down e \<or> ks = [] then Inl ErrRedis else Inr (map (stored e) ks))"

text \<open>
  \<^verbatim>\<open>client.Scan(cursor, match, count).Result()\<close>: the node visits \<open>count\<close> entries from
  the cursor on, keeps the keys among them that match, and answers with the cursor to
  go on from, which is \<open>0\<close> when the iteration is complete.
\<close>

definition client_Scan :: "engine \<Rightarrow> int \<Rightarrow> string \<Rightarrow> int \<Rightarrow> error + int \<times> string list" where
  "client_Scan e cursor pat count =
     (if down e then Inl ErrRedis
      else
        (let ks = map fst (cells e);
             page = take (nat count) (drop (nat cursor) ks);
             next = (if int (length ks) \<le> cursor + count then 0 else cursor + count)
         in Inr (next, filter (matches e pat) page)))"

section \<open>The adapter\<close>

text \<open>
  Every operation takes \<open>Normalize\<close>, the function \<^verbatim>\<open>store.Normalize\<close> that
  \<^verbatim>\<open>r.normalize\<close> forwards to; it is defined outside this package. An operation that
  reads the clock takes the reading \<open>now\<close> of \<^verbatim>\<open>time.Now()\<close>, in nanoseconds.
\<close>

definition noExpiration :: int where
  "noExpiration = 0"

text \<open>
  \<^verbatim>\<open>uint64(time.Now().Nanosecond())\<close>: \<^verbatim>\<open>Nanosecond\<close> is the offset within the current
  second, between \<open>0\<close> and \<open>999999999\<close>.
\<close>

definition timeBasedVersion :: "nat \<Rightarrow> uint64" where
  "timeBasedVersion now = of_nat (now mod 1000000000)"

definition expiration_of :: "WriteOptions option \<Rightarrow> int" where
  "expiration_of options = (case options of None \<Rightarrow> noExpiration | Some opt \<Rightarrow> TTL opt)"

definition Put ::
  "(string \<Rightarrow> string) \<Rightarrow> nat \<Rightarrow> engine \<Rightarrow> string \<Rightarrow> bytes \<Rightarrow> WriteOptions option \<Rightarrow> error + engine"
where
  "Put Normalize now e key val options =
     (let expirationAfter = expiration_of options;
          vv = \<lparr>versionedValue.Value = val, Version = timeBasedVersion now\<rparr>
      in client_Set e (Normalize key) (marshal vv) expirationAfter)"

definition Get :: "(string \<Rightarrow> string) \<Rightarrow> engine \<Rightarrow> string \<Rightarrow> (error + KVPair) outcome" where
  "Get Normalize e key =
     (case client_Get e (Normalize key) of
        Inl err \<Rightarrow> if err = RedisNil then Done (Inl ErrKeyNotFound) else Done (Inl err)
      | Inr reply \<Rightarrow>
          (case unmarshal reply of
             Panic \<Rightarrow> Panic
           | Done vv \<Rightarrow>
               Done (Inr \<lparr>Key = key, Value = versionedValue.Value vv, LastIndex = Version vv\<rparr>)))"

definition Delete :: "(string \<Rightarrow> string) \<Rightarrow> engine \<Rightarrow> string \<Rightarrow> error + engine" where
  "Delete Normalize e key = client_Del e [Normalize key]"

definition Exists :: "(string \<Rightarrow> string) \<Rightarrow> engine \<Rightarrow> string \<Rightarrow> error + bool" where
  "Exists Normalize e key = client_Exists e (Normalize key)"

subsection \<open>Scanning and listing\<close>

definition startCursor :: int where "startCursor = 0"
definition endCursor :: int where "endCursor = 0"
definition defaultCount :: int where "defaultCount = 10"

text \<open>
  The loop of \<^verbatim>\<open>keys\<close>. \<open>scan\<close> is \<^verbatim>\<open>r.client.Scan\<close> on the node as it stands. Each
  round calls it with \<^verbatim>\<open>startCursor\<close>, as the source does. The loop need not end:
  \<open>None\<close> is the run that never returns.
\<close>

partial_function (option) keys_loop ::
  "(int \<Rightarrow> string \<Rightarrow> int \<Rightarrow> error + int \<times> string list) \<Rightarrow> string \<Rightarrow> string list \<Rightarrow> int
     \<Rightarrow> (error + string list) option"
where
  "keys_loop scan regex allKeys nextCursor =
     (if nextCursor \<noteq> endCursor then
        (case scan startCursor regex defaultCount of
           Inl err \<Rightarrow> Some (Inl err)
         | Inr (nextCursor', ks) \<Rightarrow> keys_loop scan regex (allKeys @ ks) nextCursor')
      else if length allKeys = 0 then Some (Inl ErrKeyNotFound)
      else Some (Inr allKeys))"

definition keys ::
  "(int \<Rightarrow> string \<Rightarrow> int \<Rightarrow> error + int \<times> string list) \<Rightarrow> string \<Rightarrow> (error + string list) option"
where
  "keys scan regex =
     (case scan startCursor regex defaultCount of
        Inl err \<Rightarrow> Some (Inl err)
      | Inr (nextCursor, ks) \<Rightarrow> keys_loop scan regex ([] @ ks) nextCursor)"

text \<open>
  The loop of \<^verbatim>\<open>mget\<close> over the replies; \<^verbatim>\<open>keys[index]\<close> panics out of range, and so
  does \<^verbatim>\<open>unmarshal\<close> on a text it cannot decode.
\<close>

fun mget_loop :: "string list \<Rightarrow> nat \<Rightarrow> string option list \<Rightarrow> KVPair list \<Rightarrow> KVPair list outcome" where
  "mget_loop ks index [] pairs = Done pairs"
| "mget_loop ks index (reply # replies) pairs =
     (if length ks \<le> index then Panic
      else
        (let key = ks ! index;
             sreply = (case reply of Some s \<Rightarrow> s | None \<Rightarrow> [])
         in if sreply = [] then mget_loop ks (index + 1) replies pairs
            else
              (case unmarshal sreply of
                 Panic \<Rightarrow> Panic
               | Done vv \<Rightarrow>
                   mget_loop ks (index + 1) replies
                     (pairs @ [\<lparr>Key = key, Value = versionedValue.Value vv,
                                LastIndex = Version vv\<rparr>]))))"

definition mget :: "engine \<Rightarrow> string list \<Rightarrow> (error + KVPair list) outcome" where
  "mget e ks =
     (case client_MGet e ks of
        Inl err \<Rightarrow> Done (Inl err)
      | Inr replies \<Rightarrow>
          (case mget_loop ks 0 replies [] of
             Panic \<Rightarrow> Panic
           | Done pairs \<Rightarrow> Done (Inr pairs)))"

definition List ::
  "(string \<Rightarrow> string) \<Rightarrow> engine \<Rightarrow> string \<Rightarrow> (error + KVPair list) outcome option"
where
  "List Normalize e directory =
     (let regex = Normalize directory @ ''*'' in
      case keys (client_Scan e) regex of
        None \<Rightarrow> None
      | Some (Inl err) \<Rightarrow> Some (Done (Inl err))
      | Some (Inr allKeys) \<Rightarrow> Some (mget e allKeys))"

definition DeleteTree :: "(string \<Rightarrow> string) \<Rightarrow> engine \<Rightarrow> string \<Rightarrow> (error + engine) option" where
  "DeleteTree Normalize e directory =
     (let regex = Normalize directory @ ''*'' in
      case keys (client_Scan e) regex of
        None \<Rightarrow> None
      | Some (Inl err) \<Rightarrow> Some (Inl err)
      | Some (Inr allKeys) \<Rightarrow> Some (client_Del e allKeys))"

subsection \<open>Compare and swap\<close>

text \<open>
  The result of \<^verbatim>\<open>r.Get(key)\<close> as the pair \<^verbatim>\<open>existedOne, err\<close> that the two operations
  bind it to.
\<close>

definition existedOne_of :: "error + KVPair \<Rightarrow> KVPair option" where
  "existedOne_of got = (case got of Inl _ \<Rightarrow> None | Inr p \<Rightarrow> Some p)"

definition err_of :: "error + 'a \<Rightarrow> error option" where
  "err_of got = (case got of Inl err \<Rightarrow> Some err | Inr _ \<Rightarrow> None)"

text \<open>The write path of \<^verbatim>\<open>AtomicPut\<close>, after the checks. The reply of SetNX is not read.\<close>

definition AtomicPut_write ::
  "(string \<Rightarrow> string) \<Rightarrow> nat \<Rightarrow> engine \<Rightarrow> string \<Rightarrow> bytes \<Rightarrow> WriteOptions option
     \<Rightarrow> (bool \<times> KVPair option \<times> error option) \<times> engine"
where
  "AtomicPut_write Normalize now e key val options =
     (let expirationAfter = expiration_of options;
          nkey = Normalize key;
          vv = \<lparr>versionedValue.Value = val, Version = timeBasedVersion now\<rparr>
      in case client_SetNX e nkey (marshal vv) expirationAfter of
           Inl err \<Rightarrow> ((False, None, Some err), e)
         | Inr (_, e') \<Rightarrow>
             ((True,
               Some \<lparr>Key = nkey, Value = versionedValue.Value vv, LastIndex = Version vv\<rparr>,
               None), e'))"

text \<open>
  \<^verbatim>\<open>AtomicPut\<close> returns \<^verbatim>\<open>(bool, *store.KVPair, error)\<close>; the model adds the node as
  the call leaves it.
\<close>

definition AtomicPut ::
  "(string \<Rightarrow> string) \<Rightarrow> nat \<Rightarrow> engine \<Rightarrow> string \<Rightarrow> bytes \<Rightarrow> KVPair option
     \<Rightarrow> WriteOptions option \<Rightarrow> ((bool \<times> KVPair option \<times> error option) \<times> engine) outcome"
where
  "AtomicPut Normalize now e key val previous options =
     (case Get Normalize e key of
        Panic \<Rightarrow> Panic
      | Done got \<Rightarrow>
          (let existedOne = existedOne_of got; err = err_of got in
           if err \<noteq> None \<and> err \<noteq> Some ErrKeyNotFound then Done ((False, None, err), e)
           else if previous = None \<and> existedOne \<noteq> None then
             Done ((False, None, Some ErrKeyModified), e)
           else
             (case previous of
                None \<Rightarrow> Done (AtomicPut_write Normalize now e key val options)
              | Some prev \<Rightarrow>
                  (case existedOne of
                     None \<Rightarrow> Done ((False, None, Some ErrKeyModified), e)
                   | Some ex \<Rightarrow>
                       if LastIndex ex \<noteq> LastIndex prev then
                         Done ((False, None, Some ErrKeyModified), e)
                       else
                         (case Delete Normalize e key of
                            Inl derr \<Rightarrow> Done ((False, None, Some derr), e)
                          | Inr e' \<Rightarrow>
                              Done (AtomicPut_write Normalize now e' key val options))))))"

text \<open>\<^verbatim>\<open>AtomicDelete\<close> returns \<^verbatim>\<open>(bool, error)\<close>; its last line is \<^verbatim>\<open>return true, r.Delete(key)\<close>.\<close>

definition AtomicDelete_delete ::
  "(string \<Rightarrow> string) \<Rightarrow> engine \<Rightarrow> string \<Rightarrow> (bool \<times> error option) \<times> engine"
where
  "AtomicDelete_delete Normalize e key =
     (case Delete Normalize e key of
        Inl derr \<Rightarrow> ((True, Some derr), e)
      | Inr e' \<Rightarrow> ((True, None), e'))"

definition AtomicDelete ::
  "(string \<Rightarrow> string) \<Rightarrow> engine \<Rightarrow> string \<Rightarrow> KVPair option
     \<Rightarrow> ((bool \<times> error option) \<times> engine) outcome"
where
  "AtomicDelete Normalize e key previous =
     (case Get Normalize e key of
        Panic \<Rightarrow> Panic
      | Done got \<Rightarrow>
          (let existedOne = existedOne_of got; err = err_of got in
           if err \<noteq> None \<and> err \<noteq> Some ErrKeyNotFound then Done ((False, err), e)
           else if previous = None \<and> existedOne \<noteq> None then
             Done ((False, Some ErrKeyModified), e)
           else
             (case previous of
                None \<Rightarrow> Done (AtomicDelete_delete Normalize e key)
              | Some prev \<Rightarrow>
                  (case existedOne of
                     None \<Rightarrow> Done ((False, Some ErrKeyModified), e)
                   | Some ex \<Rightarrow>
                       if LastIndex ex \<noteq> LastIndex prev then
                         Done ((False, Some ErrKeyModified), e)
                       else Done (AtomicDelete_delete Normalize e key)))))"

subsection \<open>Construction and the unsupported operations\<close>

text \<open>The \<^verbatim>\<open>redis.Options\<close> that \<^verbatim>\<open>New\<close> builds its client from; durations in nanoseconds.\<close>

record redis_Options =
  Addr :: string
  DialTimeout :: int
  ReadTimeout :: int
  WriteTimeout :: int

definition Second :: int where
  "Second = 1000000000"

text \<open>
  \<^verbatim>\<open>New\<close>: \<open>'cfg\<close> is \<^verbatim>\<open>store.Config\<close>, of which \<^verbatim>\<open>New\<close> only asks whether it is nil.
  \<^verbatim>\<open>endpoints[0]\<close> panics on the empty list.
\<close>

definition New :: "string list \<Rightarrow> 'cfg option \<Rightarrow> (error + redis_Options) outcome" where
  "New endpoints options =
     (if 1 < length endpoints then Done (Inl ErrMultipleEndpointsUnsupported)
      else if options \<noteq> None then Done (Inl ErrTLSUnsupported)
      else
        (case endpoints of
           [] \<Rightarrow> Panic
         | addr # _ \<Rightarrow>
             Done (Inr \<lparr>Addr = addr, DialTimeout = 5 * Second, ReadTimeout = 30 * Second,
                        WriteTimeout = 30 * Second\<rparr>)))"

text \<open>
  The three stubs. Each takes the node and returns it with the result, so that what
  they do to it is part of what they return. \<open>'stop\<close> is the stop channel, \<open>'ch\<close> the
  channel or locker that a nil result stands for, \<open>'opt\<close> is \<^verbatim>\<open>store.LockOptions\<close>.
\<close>

definition Watch :: "engine \<Rightarrow> string \<Rightarrow> 'stop \<Rightarrow> (error + 'ch) \<times> engine" where
  "Watch e key stopCh = (Inl ErrNotImplemented, e)"

definition WatchTree :: "engine \<Rightarrow> string \<Rightarrow> 'stop \<Rightarrow> (error + 'ch) \<times> engine" where
  "WatchTree e directory stopCh = (Inl ErrNotImplemented, e)"

definition NewLock :: "engine \<Rightarrow> string \<Rightarrow> 'opt \<Rightarrow> (error + 'ch) \<times> engine" where
  "NewLock e key options = (Inl ErrNotImplemented, e)"

section \<open>What the specification says, for comparison\<close>

text \<open>
  The scan aggregator in the words of the specification: call the scan with a fixed
  page size, first with the initial cursor and then with the cursor that the call
  before returned, collect the keys, and stop when the cursor is back at its start
  value; an empty collection is \<open>ErrKeyNotFound\<close>.
\<close>

partial_function (option) scanPrefix_loop ::
  "(int \<Rightarrow> string \<Rightarrow> int \<Rightarrow> error + int \<times> string list) \<Rightarrow> string \<Rightarrow> string list \<Rightarrow> int
     \<Rightarrow> (error + string list) option"
where
  "scanPrefix_loop scan pattern collected cursor =
     (case scan cursor pattern defaultCount of
        Inl err \<Rightarrow> Some (Inl err)
      | Inr (cursor', ks) \<Rightarrow>
          if cursor' \<noteq> startCursor then scanPrefix_loop scan pattern (collected @ ks) cursor'
          else if collected @ ks = [] then Some (Inl ErrKeyNotFound)
          else Some (Inr (collected @ ks)))"

definition scanPrefix ::
  "(int \<Rightarrow> string \<Rightarrow> int \<Rightarrow> error + int \<times> string list) \<Rightarrow> string \<Rightarrow> (error + string list) option"
where
  "scanPrefix scan pattern = scanPrefix_loop scan pattern [] startCursor"

text \<open>
  The three rows of the decision table in which a compare-and-swap must fail with
  \<open>ErrKeyModified\<close>: no previous pair but an entry; a previous pair but no entry; a
  previous pair whose \<open>LastIndex\<close> is not the version of the entry. \<open>k\<close> is the flat key.
\<close>

definition current_version :: "engine \<Rightarrow> string \<Rightarrow> uint64 option" where
  "current_version e k =
     (case stored e k of None \<Rightarrow> None | Some s \<Rightarrow> map_option Version (json_Unmarshal s))"

definition cas_conflict :: "engine \<Rightarrow> string \<Rightarrow> KVPair option \<Rightarrow> bool" where
  "cas_conflict e k previous =
     (case previous of
        None \<Rightarrow> stored e k \<noteq> None
      | Some prev \<Rightarrow> stored e k = None \<or> current_version e k \<noteq> Some (LastIndex prev))"

text \<open>The entry under \<open>k\<close>, if there is one, is a text that \<open>unmarshal\<close> decodes.\<close>

definition decodes :: "engine \<Rightarrow> string \<Rightarrow> bool" where
  "decodes e k = (case stored e k of None \<Rightarrow> True | Some s \<Rightarrow> json_Unmarshal s \<noteq> None)"



section \<open>Concrete inputs\<close>

text \<open>
  A normalizer and a pattern matcher to run the adapter on: the key with a leading
  slash, and a pattern \<open>p*\<close> that matches the keys starting with \<open>p\<close>.
\<close>

definition slash :: "string \<Rightarrow> string" where
  "slash key = CHR ''/'' # key"

definition star_matches :: "string \<Rightarrow> string \<Rightarrow> bool" where
  "star_matches p k = (p \<noteq> [] \<and> last p = CHR ''*'' \<and> take (length p - 1) k = butlast p)"

definition node :: "(string \<times> string \<times> int) list \<Rightarrow> engine" where
  "node cs = \<lparr>cells = cs, down = False, matches = star_matches\<rparr>"

definition envelope :: "nat \<Rightarrow> string" where
  "envelope n = marshal \<lparr>versionedValue.Value = Some [], Version = of_nat n\<rparr>"

text \<open>A node with eleven entries under the directory \<open>a\<close>: one more than a page.\<close>

definition eleven :: engine where
  "eleven =
     node (map (\<lambda>k. (k, envelope 1, 0))
       [''/a/0'', ''/a/1'', ''/a/2'', ''/a/3'', ''/a/4'', ''/a/5'', ''/a/6'', ''/a/7'',
        ''/a/8'', ''/a/9'', ''/a/10''])"

section \<open>The codec round trip\<close>

declare format_uint.simps [simp del]

lemma index_of_nth: "distinct xs \<Longrightarrow> i < length xs \<Longrightarrow> index_of (xs ! i) xs = Some i"
proof (induction xs arbitrary: i)
  case Nil
  then show ?case by simp
next
  case (Cons x xs)
  show ?case
  proof (cases i)
    case 0
    then show ?thesis by simp
  next
    case (Suc j)
    with Cons.prems have "xs ! j \<in> set xs" and "x \<notin> set xs" by auto
    then have "x \<noteq> xs ! j" by auto
    with Suc Cons show ?thesis by simp
  qed
qed

lemma b64_alphabet_distinct: "distinct b64_alphabet"
  by (simp add: b64_alphabet_def)

lemma b64_alphabet_length: "length b64_alphabet = 64"
  by (simp add: b64_alphabet_def)

lemma b64_index_char: "i < 64 \<Longrightarrow> b64_index (b64_char i) = Some i"
  by (simp add: b64_index_def b64_char_def index_of_nth b64_alphabet_distinct b64_alphabet_length)

lemma b64_char_in: "i < 64 \<Longrightarrow> b64_char i \<in> set b64_alphabet"
  by (simp add: b64_char_def b64_alphabet_length)

lemma b64_alphabet_no_pad: "c \<in> set b64_alphabet \<Longrightarrow> c \<noteq> CHR ''='' \<and> c \<noteq> CHR 0x22"
  by (auto simp: b64_alphabet_def)

lemma b64_char_plain: "i < 64 \<Longrightarrow> b64_char i \<noteq> CHR ''='' \<and> b64_char i \<noteq> CHR 0x22"
  using b64_alphabet_no_pad b64_char_in by blast

lemma unat_byte_less: "unat (a :: byte) < 256"
  using unsigned_less [of a, where 'a = nat] by simp

lemma div_less_256:
  fixes y :: nat
  assumes "y < 256"
  shows "y div 4 < 64" "y div 16 < 16" "y div 64 < 4"
  using assms by (simp_all add: less_mult_imp_div_less)

lemma pack_less: "p < 4 \<Longrightarrow> q < 16 \<Longrightarrow> p * 16 + q < (64::nat)"
  and pack_less': "p < 16 \<Longrightarrow> q < 4 \<Longrightarrow> p * 4 + q < (64::nat)"
  by simp_all

lemma pack_div_mod:
  fixes p q :: nat
  shows "q < 16 \<Longrightarrow> (p * 16 + q) div 16 = p" "q < 16 \<Longrightarrow> (p * 16 + q) mod 16 = q"
    "q < 4 \<Longrightarrow> (p * 4 + q) div 4 = p" "q < 4 \<Longrightarrow> (p * 4 + q) mod 4 = q"
  by simp_all

lemma sextet_bounds:
  "sextet0 a < 64" "sextet1 a b < 64" "sextet2 b c < 64" "sextet3 c < 64"
proof -
  show "sextet0 a < 64"
    unfolding sextet0_def by (rule div_less_256 (1) [OF unat_byte_less])
  show "sextet1 a b < 64"
    unfolding sextet1_def by (rule pack_less [OF _ div_less_256 (2) [OF unat_byte_less]]) simp
  show "sextet2 b c < 64"
    unfolding sextet2_def by (rule pack_less' [OF _ div_less_256 (3) [OF unat_byte_less]]) simp
  show "sextet3 c < 64"
    unfolding sextet3_def by simp
qed

lemma octet0_sextets: "octet0 (sextet0 a) (sextet1 a b) = a"
proof -
  have "((unat a mod 4) * 16 + unat b div 16) div 16 = unat a mod 4"
    by (rule pack_div_mod (1) [OF div_less_256 (2) [OF unat_byte_less]])
  then have "(unat a div 4) * 4 + ((unat a mod 4) * 16 + unat b div 16) div 16 = unat a"
    by (simp only: div_mult_mod_eq)
  then show ?thesis
    unfolding octet0_def sextet0_def sextet1_def by (simp only: of_nat_unat ucast_id)
qed

lemma octet1_sextets: "octet1 (sextet1 a b) (sextet2 b c) = b"
proof -
  have "((unat a mod 4) * 16 + unat b div 16) mod 16 = unat b div 16"
    by (rule pack_div_mod (2) [OF div_less_256 (2) [OF unat_byte_less]])
  moreover have "((unat b mod 16) * 4 + unat c div 64) div 4 = unat b mod 16"
    by (rule pack_div_mod (3) [OF div_less_256 (3) [OF unat_byte_less]])
  ultimately have "(((unat a mod 4) * 16 + unat b div 16) mod 16) * 16
        + ((unat b mod 16) * 4 + unat c div 64) div 4 = unat b"
    by (simp only: div_mult_mod_eq)
  then show ?thesis
    unfolding octet1_def sextet1_def sextet2_def by (simp only: of_nat_unat ucast_id)
qed

lemma octet2_sextets: "octet2 (sextet2 b c) (sextet3 c) = c"
proof -
  have "((unat b mod 16) * 4 + unat c div 64) mod 4 = unat c div 64"
    by (rule pack_div_mod (4) [OF div_less_256 (3) [OF unat_byte_less]])
  then have "(((unat b mod 16) * 4 + unat c div 64) mod 4) * 64 + unat c mod 64 = unat c"
    by (simp only: div_mult_mod_eq)
  then show ?thesis
    unfolding octet2_def sextet2_def sextet3_def by (simp only: of_nat_unat ucast_id)
qed

lemma b64_encode_chars: "c \<in> set (b64_encode bs) \<Longrightarrow> c \<noteq> CHR 0x22"
proof (induction bs arbitrary: c rule: b64_encode.induct)
  case 1
  then show ?case by simp
next
  case (2 a)
  then show ?case
    using b64_char_plain [OF sextet_bounds(1) [of a]] b64_char_plain [OF sextet_bounds(2) [of a 0]]
    by auto
next
  case (3 a b)
  then show ?case
    using b64_char_plain [OF sextet_bounds(1) [of a]] b64_char_plain [OF sextet_bounds(2) [of a b]]
      b64_char_plain [OF sextet_bounds(3) [of b 0]]
    by auto
next
  case (4 a b c' rest)
  then show ?case
    using b64_char_plain [OF sextet_bounds(1) [of a]] b64_char_plain [OF sextet_bounds(2) [of a b]]
      b64_char_plain [OF sextet_bounds(3) [of b c']] b64_char_plain [OF sextet_bounds(4) [of c']]
    by auto
qed

lemma b64_decode_encode: "b64_decode (b64_encode bs) = Some bs"
proof (induction bs rule: b64_encode.induct)
  case 1
  show ?case by simp
next
  case (2 a)
  show ?case
    by (simp add: b64_index_char sextet_bounds octet0_sextets)
next
  case (3 a b)
  show ?case
    by (simp add: b64_index_char sextet_bounds b64_char_plain octet0_sextets octet1_sextets)
next
  case (4 a b c rest)
  then show ?case
    by (simp add: b64_index_char sextet_bounds b64_char_plain octet0_sextets octet1_sextets
        octet2_sextets)
qed

lemma of_char_digit_char: "d < 10 \<Longrightarrow> (of_char (digit_char d) :: nat) = 48 + d"
  by (simp add: digit_char_def)

lemma digit_char_props:
  assumes "d < 10"
  shows "is_digit (digit_char d)" "digit_val (digit_char d) = d"
    "0 < d \<Longrightarrow> digit_char d \<noteq> CHR ''0''"
proof -
  note oc = of_char_digit_char [OF assms]
  show "is_digit (digit_char d)"
    using assms by (simp add: is_digit_def oc)
  show "digit_val (digit_char d) = d"
    by (simp add: digit_val_def oc)
  show "digit_char d \<noteq> CHR ''0''" if "0 < d"
  proof
    assume "digit_char d = CHR ''0''"
    then have "(of_char (digit_char d) :: nat) = of_char (CHR ''0'')" by simp
    with oc that show False by simp
  qed
qed

lemma format_uint_nonempty: "format_uint n \<noteq> []"
  by (subst format_uint.simps) simp

lemma format_uint_digits: "list_all is_digit (format_uint n)"
proof (induction n rule: format_uint.induct)
  case (1 n)
  show ?case
  proof (cases "n < 10")
    case True
    then show ?thesis by (subst format_uint.simps) (simp add: digit_char_props)
  next
    case False
    with 1 show ?thesis by (subst format_uint.simps) (simp add: digit_char_props)
  qed
qed

lemma digits_value_snoc: "digits_value (s @ [c]) = digits_value s * 10 + digit_val c"
  by (simp add: digits_value_def)

lemma digits_value_format: "digits_value (format_uint n) = n"
proof (induction n rule: format_uint.induct)
  case (1 n)
  show ?case
  proof (cases "n < 10")
    case True
    then show ?thesis
      by (subst format_uint.simps) (simp add: digits_value_def digit_char_props)
  next
    case False
    with 1 have "digits_value (format_uint (n div 10)) = n div 10" by simp
    with False show ?thesis
      by (subst format_uint.simps) (simp add: digits_value_snoc digit_char_props)
  qed
qed

lemma format_uint_hd: "0 < n \<Longrightarrow> hd (format_uint n) \<noteq> CHR ''0''"
proof (induction n rule: format_uint.induct)
  case (1 n)
  show ?case
  proof (cases "n < 10")
    case True
    with 1 show ?thesis by (subst format_uint.simps) (simp add: digit_char_props)
  next
    case False
    then have "0 < n div 10" by simp
    with 1 False have "hd (format_uint (n div 10)) \<noteq> CHR ''0''" by simp
    with False show ?thesis
      by (subst format_uint.simps) (simp add: format_uint_nonempty)
  qed
qed

lemma format_uint_leading: "\<not> (1 < length (format_uint n) \<and> hd (format_uint n) = CHR ''0'')"
proof (cases "n = 0")
  case True
  then show ?thesis by (subst format_uint.simps) simp
next
  case False
  then show ?thesis using format_uint_hd [of n] by simp
qed

lemma parse_format_uint64: "parse_uint64 (format_uint (unat (w :: uint64))) = Some w"
proof -
  have "unat w < 2 ^ 64"
    using unsigned_less [of w, where 'a = nat] by simp
  then show ?thesis
    using format_uint_leading [of "unat w"]
    by (simp add: parse_uint64_def format_uint_nonempty format_uint_digits digits_value_format)
qed

lemma strip_prefix_append: "strip_prefix p (p @ s) = Some s"
  by (simp add: strip_prefix_def)

lemma takeWhile_upto:
  "\<forall>x\<in>set xs. P x \<Longrightarrow> \<not> P y \<Longrightarrow> takeWhile P (xs @ y # ys) = xs"
  by (induction xs) auto

lemma dropWhile_upto:
  "\<forall>x\<in>set xs. P x \<Longrightarrow> \<not> P y \<Longrightarrow> dropWhile P (xs @ y # ys) = y # ys"
  by (induction xs) auto

lemma parse_bytes_nil: \<open>parse_bytes (''null'' @ rest) = Some (None, rest)\<close>
  by (simp add: parse_bytes_def)

lemma parse_bytes_b64:
  \<open>parse_bytes (''"'' @ b64_encode bs @ ''"'' @ rest) = Some (Some bs, rest)\<close>
proof -
  have q: "\<forall>x\<in>set (b64_encode bs). x \<noteq> CHR 0x22"
    using b64_encode_chars by blast
  have "takeWhile (\<lambda>x. x \<noteq> CHR 0x22) (b64_encode bs @ CHR 0x22 # rest) = b64_encode bs"
    by (rule takeWhile_upto [OF q]) simp
  moreover
  have "dropWhile (\<lambda>x. x \<noteq> CHR 0x22) (b64_encode bs @ CHR 0x22 # rest) = CHR 0x22 # rest"
    by (rule dropWhile_upto [OF q]) simp
  ultimately show ?thesis
    by (simp add: parse_bytes_def b64_decode_encode)
qed

lemma parse_bytes_field:
  \<open>parse_bytes ((case v of None \<Rightarrow> ''null'' | Some bs \<Rightarrow> ''"'' @ b64_encode bs @ ''"'') @ rest)
     = Some (v, rest)\<close>
proof (cases v)
  case None
  then show ?thesis using parse_bytes_nil [of rest] by simp
next
  case (Some bs)
  then show ?thesis using parse_bytes_b64 [of bs rest] by simp
qed

lemma digits_then_brace:
  \<open>takeWhile is_digit (format_uint n @ ''}'') = format_uint n\<close>
  \<open>dropWhile is_digit (format_uint n @ ''}'') = ''}''\<close>
proof -
  have d: "\<forall>x\<in>set (format_uint n). is_digit x"
    using format_uint_digits [of n] by (simp add: list_all_iff)
  have b: "\<not> is_digit (CHR ''}'')" by (simp add: is_digit_def)
  show \<open>takeWhile is_digit (format_uint n @ ''}'') = format_uint n\<close>
    by (rule takeWhile_upto [OF d b])
  show \<open>dropWhile is_digit (format_uint n @ ''}'') = ''}''\<close>
    by (rule dropWhile_upto [OF d b])
qed

lemma json_Unmarshal_Marshal: "json_Unmarshal (json_Marshal v) = Some v"
proof -
  let ?field = \<open>case versionedValue.Value v of None \<Rightarrow> ''null''
                | Some bs \<Rightarrow> ''"'' @ b64_encode bs @ ''"''\<close>
  let ?num = "format_uint (unat (Version v))"
  let ?tail = \<open>'',"Version":'' @ ?num @ ''}''\<close>
  have m: \<open>json_Marshal v = ''{"Value":'' @ ?field @ ?tail\<close>
    by (simp add: json_Marshal_def)
  have 1: \<open>strip_prefix ''{"Value":'' (json_Marshal v) = Some (?field @ ?tail)\<close>
    unfolding m by (rule strip_prefix_append)
  have 2: "parse_bytes (?field @ ?tail) = Some (versionedValue.Value v, ?tail)"
    by (rule parse_bytes_field)
  have 3: \<open>strip_prefix '',"Version":'' ?tail = Some (?num @ ''}'')\<close>
    by (rule strip_prefix_append)
  show ?thesis
    unfolding json_Unmarshal_def 1 option.case 2 prod.case 3
    by (simp add: digits_then_brace parse_format_uint64)
qed

lemma json_Unmarshal_marshal [simp]: "json_Unmarshal (marshal v) = Some v"
  by (simp add: marshal_def json_Unmarshal_Marshal)

lemma unmarshal_marshal_Done [simp]: "unmarshal (marshal v) = Done v"
  by (simp add: unmarshal_def)

lemma marshal_nonempty [simp]: "marshal v \<noteq> []"
  by (simp add: marshal_def json_Marshal_def)

text \<open>
  C5: for every byte payload \<open>v\<close> and every version \<open>n\<close>, decoding the encoded
  envelope returns exactly the pair \<open>(v, n)\<close>. The encoding is a function of the pair,
  and two pairs have the same encoding only when they are the same pair.
\<close>

theorem unmarshal_marshal_roundtrip:
  "unmarshal (marshal \<lparr>versionedValue.Value = v, Version = n\<rparr>)
     = Done \<lparr>versionedValue.Value = v, Version = n\<rparr>
   \<and> ((marshal \<lparr>versionedValue.Value = v, Version = n\<rparr>
        = marshal \<lparr>versionedValue.Value = v', Version = n'\<rparr>) = (v = v' \<and> n = n'))"
proof
  show "unmarshal (marshal \<lparr>versionedValue.Value = v, Version = n\<rparr>)
          = Done \<lparr>versionedValue.Value = v, Version = n\<rparr>"
    by (rule unmarshal_marshal_Done)
next
  have "v = v' \<and> n = n'"
    if "marshal \<lparr>versionedValue.Value = v, Version = n\<rparr>
          = marshal \<lparr>versionedValue.Value = v', Version = n'\<rparr>"
  proof -
    have "json_Unmarshal (marshal \<lparr>versionedValue.Value = v, Version = n\<rparr>)
            = json_Unmarshal (marshal \<lparr>versionedValue.Value = v', Version = n'\<rparr>)"
      using that by simp
    then show ?thesis by simp
  qed
  then show "(marshal \<lparr>versionedValue.Value = v, Version = n\<rparr>
        = marshal \<lparr>versionedValue.Value = v', Version = n'\<rparr>) = (v = v' \<and> n = n')"
    by auto
qed

theorem unmarshal_marshal_roundtrip_witness:
  "unmarshal (marshal \<lparr>versionedValue.Value = Some [72, 105], Version = 12345\<rparr>)
     = Done \<lparr>versionedValue.Value = Some [72, 105], Version = 12345\<rparr>"
  using unmarshal_marshal_roundtrip [of "Some [72, 105]" 12345 None 0] by simp

section \<open>The engine and the single-key operations\<close>
lemma map_of_filter_fst:
  "map_of (filter (\<lambda>c. fst c \<notin> S) al) k = (if k \<in> S then None else map_of al k)"
  by (induction al) auto

lemma map_of_filter_ne:
  "map_of (filter (\<lambda>c. fst c \<noteq> k0) al) k = (if k = k0 then None else map_of al k)"
  by (induction al) auto

lemma stored_cells: "stored (e\<lparr>cells := cs\<rparr>) k = map_option fst (map_of cs k)"
  by (simp add: stored_def)

lemmas stored_simps = stored_cells update_conv' map_of_filter_ne map_of_filter_fst

lemma Get_absent:
  "\<not> down e \<Longrightarrow> stored e (Normalize key) = None \<Longrightarrow> Get Normalize e key = Done (Inl ErrKeyNotFound)"
  by (simp add: Get_def client_Get_def)

lemma Get_present:
  "\<not> down e \<Longrightarrow> stored e (Normalize key) = Some s \<Longrightarrow> json_Unmarshal s = Some vv \<Longrightarrow>
     Get Normalize e key
       = Done (Inr \<lparr>Key = key, Value = versionedValue.Value vv, LastIndex = Version vv\<rparr>)"
  by (simp add: Get_def client_Get_def unmarshal_def)

lemma Get_down: "down e \<Longrightarrow> Get Normalize e key = Done (Inl ErrRedis)"
  by (simp add: Get_def client_Get_def)

lemma Put_result:
  "Put Normalize now e key val options = Inr e' \<longleftrightarrow>
     \<not> down e \<and>
     e' = e\<lparr>cells := AList.update (Normalize key)
             (marshal \<lparr>versionedValue.Value = val, Version = timeBasedVersion now\<rparr>,
              expiration_of options) (cells e)\<rparr>"
  by (auto simp: Put_def client_Set_def Let_def)

lemma Delete_up:
  "\<not> down e \<Longrightarrow>
     Delete Normalize e key
       = Inr (e\<lparr>cells := filter (\<lambda>c. fst c \<noteq> Normalize key) (cells e)\<rparr>)"
  by (simp add: Delete_def client_Del_def)

lemma AtomicPut_write_up:
  "\<not> down e \<Longrightarrow> stored e (Normalize key) = None \<Longrightarrow>
     AtomicPut_write Normalize now e key val options
       = ((True, Some \<lparr>Key = Normalize key, Value = val, LastIndex = timeBasedVersion now\<rparr>, None),
          e\<lparr>cells := AList.update (Normalize key)
               (marshal \<lparr>versionedValue.Value = val, Version = timeBasedVersion now\<rparr>,
                expiration_of options) (cells e)\<rparr>)"
  by (simp add: AtomicPut_write_def client_SetNX_def Let_def)

lemma timeBasedVersion_unat: "unat (timeBasedVersion now) = now mod 1000000000"
proof -
  have "now mod 1000000000 < (2::nat) ^ 64"
    by (rule less_trans [of _ 1000000000]) simp_all
  then show ?thesis
    by (simp add: timeBasedVersion_def unat_of_nat)
qed

text \<open>
  C6: after a successful \<open>Put\<close> of \<open>v\<close> under \<open>k\<close> with nil options, \<open>Get\<close> of \<open>k\<close> returns,
  with no error, the pair whose \<open>Key\<close> is the caller's \<open>k\<close> and whose \<open>Value\<close> is \<open>v\<close> (its
  version is the one that \<open>Put\<close> stamped). \<open>Get\<close> of a key under which the reachable node
  holds nothing fails with \<open>ErrKeyNotFound\<close>.
\<close>

theorem Put_then_Get:
  "(Put Normalize now e k v None = Inr e' \<longrightarrow>
      Get Normalize e' k = Done (Inr \<lparr>Key = k, Value = v, LastIndex = timeBasedVersion now\<rparr>))
   \<and> (\<not> down e \<and> stored e (Normalize k) = None \<longrightarrow>
      Get Normalize e k = Done (Inl ErrKeyNotFound))"
proof (intro conjI impI)
  assume "Put Normalize now e k v None = Inr e'"
  then have up: "\<not> down e'"
    and st: "stored e' (Normalize k)
      = Some (marshal \<lparr>versionedValue.Value = v, Version = timeBasedVersion now\<rparr>)"
    by (simp_all add: Put_result stored_simps)
  show "Get Normalize e' k = Done (Inr \<lparr>Key = k, Value = v, LastIndex = timeBasedVersion now\<rparr>)"
    using Get_present [where Normalize = Normalize, OF up st json_Unmarshal_marshal] by simp
next
  assume "\<not> down e \<and> stored e (Normalize k) = None"
  then show "Get Normalize e k = Done (Inl ErrKeyNotFound)"
    by (simp add: Get_absent)
qed

theorem Put_then_Get_witness:
  "Put slash 7 (node []) ''k'' (Some [1]) None
     = Inr (node [(''/k'', marshal \<lparr>versionedValue.Value = Some [1], Version = 7\<rparr>, 0)])
   \<and> Get slash (node [(''/k'', marshal \<lparr>versionedValue.Value = Some [1], Version = 7\<rparr>, 0)]) ''k''
       = Done (Inr \<lparr>Key = ''k'', Value = Some [1], LastIndex = 7\<rparr>)
   \<and> \<not> down (node []) \<and> stored (node []) (slash ''k'') = None
   \<and> Get slash (node []) ''k'' = Done (Inl ErrKeyNotFound)"
proof -
  have p: "Put slash 7 (node []) ''k'' (Some [1]) None
     = Inr (node [(''/k'', marshal \<lparr>versionedValue.Value = Some [1], Version = 7\<rparr>, 0)])"
    by (simp add: Put_def client_Set_def node_def slash_def timeBasedVersion_def
        expiration_of_def noExpiration_def)
  have a: "\<not> down (node []) \<and> stored (node []) (slash ''k'') = None"
    by (simp add: node_def stored_def)
  from Put_then_Get [of slash 7 "node []" "''k''" "Some [1]" _] p a
  show ?thesis
    by (simp add: timeBasedVersion_def)
qed

section \<open>Compare and swap\<close>

lemma AtomicPut_decision:
  assumes up: "\<not> down e" and dec: "decodes e (Normalize key)"
  shows "if cas_conflict e (Normalize key) previous
     then AtomicPut Normalize now e key val previous options
            = Done ((False, None, Some ErrKeyModified), e)
     else \<exists>e'. AtomicPut Normalize now e key val previous options
                = Done ((True, Some \<lparr>Key = Normalize key, Value = val,
                                     LastIndex = timeBasedVersion now\<rparr>, None), e')
              \<and> stored e' (Normalize key)
                  = Some (marshal \<lparr>versionedValue.Value = val, Version = timeBasedVersion now\<rparr>)
              \<and> (\<forall>k. k \<noteq> Normalize key \<longrightarrow> stored e' k = stored e k)"
proof (cases "stored e (Normalize key)")
  case None
  note absent = this
  have g: "Get Normalize e key = Done (Inl ErrKeyNotFound)"
    by (rule Get_absent [where Normalize = Normalize, OF up absent])
  show ?thesis
  proof (cases previous)
    case None
    then show ?thesis
      using absent
      by (simp add: cas_conflict_def AtomicPut_def g existedOne_of_def err_of_def
          AtomicPut_write_up [where Normalize = Normalize, OF up absent] stored_simps)
         (simp add: stored_def)
  next
    case (Some prev)
    then show ?thesis
      using absent
      by (simp add: cas_conflict_def AtomicPut_def g existedOne_of_def err_of_def)
  qed
next
  case (Some s)
  note present = this
  with dec obtain vv where vv: "json_Unmarshal s = Some vv"
    by (auto simp: decodes_def)
  have g: "Get Normalize e key
      = Done (Inr \<lparr>Key = key, Value = versionedValue.Value vv, LastIndex = Version vv\<rparr>)"
    by (rule Get_present [where Normalize = Normalize, OF up present vv])
  have cv: "current_version e (Normalize key) = Some (Version vv)"
    by (simp add: current_version_def present vv)
  show ?thesis
  proof (cases previous)
    case None
    then show ?thesis
      using present
      by (simp add: cas_conflict_def AtomicPut_def g existedOne_of_def err_of_def)
  next
    case (Some prev)
    note prev = this
    show ?thesis
    proof (cases "Version vv = LastIndex prev")
      case False
      then show ?thesis
        using present prev
        by (simp add: cas_conflict_def cv AtomicPut_def g existedOne_of_def err_of_def)
    next
      case True
      let ?e1 = "e\<lparr>cells := filter (\<lambda>c. fst c \<noteq> Normalize key) (cells e)\<rparr>"
      have d: "Delete Normalize e key = Inr ?e1"
        by (rule Delete_up [where Normalize = Normalize, OF up])
      have up1: "\<not> down ?e1" using up by simp
      have gone: "stored ?e1 (Normalize key) = None"
        by (simp add: stored_simps)
      have w: "AtomicPut Normalize now e key val previous options
                 = Done (AtomicPut_write Normalize now ?e1 key val options)"
        using True prev by (simp add: AtomicPut_def g existedOne_of_def err_of_def d)
      have nc: "\<not> cas_conflict e (Normalize key) previous"
        using True prev present by (simp add: cas_conflict_def cv)
      show ?thesis
        using nc
        by (simp add: w AtomicPut_write_up [where Normalize = Normalize, OF up1 gone] stored_simps)
           (simp add: stored_def)
    qed
  qed
qed

lemma AtomicDelete_decision:
  assumes up: "\<not> down e" and dec: "decodes e (Normalize key)"
  shows "if cas_conflict e (Normalize key) previous
     then AtomicDelete Normalize e key previous = Done ((False, Some ErrKeyModified), e)
     else \<exists>e'. AtomicDelete Normalize e key previous = Done ((True, None), e')
              \<and> stored e' (Normalize key) = None
              \<and> (\<forall>k. k \<noteq> Normalize key \<longrightarrow> stored e' k = stored e k)"
proof -
  let ?e1 = "e\<lparr>cells := filter (\<lambda>c. fst c \<noteq> Normalize key) (cells e)\<rparr>"
  have d: "AtomicDelete_delete Normalize e key = ((True, None), ?e1)"
    by (simp add: AtomicDelete_delete_def Delete_up [where Normalize = Normalize, OF up])
  have gone: "stored ?e1 (Normalize key) = None"
    by (simp add: stored_simps)
  have other: "\<forall>k. k \<noteq> Normalize key \<longrightarrow> stored ?e1 k = stored e k"
    by (simp add: stored_simps) (simp add: stored_def)
  show ?thesis
  proof (cases "stored e (Normalize key)")
    case None
    note absent = this
    have g: "Get Normalize e key = Done (Inl ErrKeyNotFound)"
      by (rule Get_absent [where Normalize = Normalize, OF up absent])
    show ?thesis
    proof (cases previous)
      case None
      then show ?thesis
        using absent gone other
        by (simp add: cas_conflict_def AtomicDelete_def g existedOne_of_def err_of_def d)
    next
      case (Some prev)
      then show ?thesis
        using absent
        by (simp add: cas_conflict_def AtomicDelete_def g existedOne_of_def err_of_def)
    qed
  next
    case (Some s)
    note present = this
    with dec obtain vv where vv: "json_Unmarshal s = Some vv"
      by (auto simp: decodes_def)
    have g: "Get Normalize e key
        = Done (Inr \<lparr>Key = key, Value = versionedValue.Value vv, LastIndex = Version vv\<rparr>)"
      by (rule Get_present [where Normalize = Normalize, OF up present vv])
    have cv: "current_version e (Normalize key) = Some (Version vv)"
      by (simp add: current_version_def present vv)
    show ?thesis
    proof (cases previous)
      case None
      then show ?thesis
        using present
        by (simp add: cas_conflict_def AtomicDelete_def g existedOne_of_def err_of_def)
    next
      case (Some prev)
      then show ?thesis
        using present gone other
        by (simp add: cas_conflict_def cv AtomicDelete_def g existedOne_of_def err_of_def d)
    qed
  qed
qed

text \<open>
  C2: on a node that can be reached and whose entry under the key, if any, decodes,
  \<open>AtomicPut\<close> and \<open>AtomicDelete\<close> fail with \<open>ErrKeyModified\<close> (and leave the node as it
  was) exactly in the three cases of \<open>cas_conflict\<close>: no previous pair but an entry, a
  previous pair but no entry, a previous pair whose \<open>LastIndex\<close> differs from the stored
  version. In every other case \<open>AtomicPut\<close> reports success with the new pair and has
  written the new envelope, \<open>AtomicDelete\<close> reports success and the key holds nothing;
  the other keys are untouched.
\<close>

theorem AtomicPut_AtomicDelete_KeyModified:
  assumes "\<not> down e" and "decodes e (Normalize key)"
  shows
    "(if cas_conflict e (Normalize key) previous
      then AtomicPut Normalize now e key val previous options
             = Done ((False, None, Some ErrKeyModified), e)
      else \<exists>e'. AtomicPut Normalize now e key val previous options
                 = Done ((True, Some \<lparr>Key = Normalize key, Value = val,
                                      LastIndex = timeBasedVersion now\<rparr>, None), e')
               \<and> stored e' (Normalize key)
                   = Some (marshal \<lparr>versionedValue.Value = val, Version = timeBasedVersion now\<rparr>)
               \<and> (\<forall>k. k \<noteq> Normalize key \<longrightarrow> stored e' k = stored e k))
     \<and>
     (if cas_conflict e (Normalize key) previous
      then AtomicDelete Normalize e key previous = Done ((False, Some ErrKeyModified), e)
      else \<exists>e'. AtomicDelete Normalize e key previous = Done ((True, None), e')
               \<and> stored e' (Normalize key) = None
               \<and> (\<forall>k. k \<noteq> Normalize key \<longrightarrow> stored e' k = stored e k))"
  using AtomicPut_decision [where Normalize = Normalize and key = key, OF assms]
    AtomicDelete_decision [where Normalize = Normalize and key = key, OF assms]
  by (rule conjI)

theorem AtomicPut_AtomicDelete_KeyModified_witness:
  "\<not> down (node [(''/k'', envelope 5, 0)])
   \<and> decodes (node [(''/k'', envelope 5, 0)]) (slash ''k'')
   \<and> cas_conflict (node [(''/k'', envelope 5, 0)]) (slash ''k'')
        (Some \<lparr>Key = ''k'', Value = Some [], LastIndex = 4\<rparr>)
   \<and> AtomicPut slash 7 (node [(''/k'', envelope 5, 0)]) ''k'' (Some [1])
        (Some \<lparr>Key = ''k'', Value = Some [], LastIndex = 4\<rparr>) None
       = Done ((False, None, Some ErrKeyModified), node [(''/k'', envelope 5, 0)])
   \<and> AtomicDelete slash (node [(''/k'', envelope 5, 0)]) ''k''
        (Some \<lparr>Key = ''k'', Value = Some [], LastIndex = 4\<rparr>)
       = Done ((False, Some ErrKeyModified), node [(''/k'', envelope 5, 0)])
   \<and> \<not> cas_conflict (node [(''/k'', envelope 5, 0)]) (slash ''k'')
        (Some \<lparr>Key = ''k'', Value = Some [], LastIndex = 5\<rparr>)
   \<and> (\<exists>e'. AtomicPut slash 7 (node [(''/k'', envelope 5, 0)]) ''k'' (Some [1])
              (Some \<lparr>Key = ''k'', Value = Some [], LastIndex = 5\<rparr>) None
             = Done ((True, Some \<lparr>Key = ''/k'', Value = Some [1], LastIndex = 7\<rparr>, None), e'))
   \<and> (\<exists>e'. AtomicDelete slash (node [(''/k'', envelope 5, 0)]) ''k''
              (Some \<lparr>Key = ''k'', Value = Some [], LastIndex = 5\<rparr>)
             = Done ((True, None), e'))"
proof -
  let ?e = "node [(''/k'', envelope 5, 0)]"
  have up: "\<not> down ?e" and dec: "decodes ?e (slash ''k'')"
    by (simp_all add: node_def decodes_def stored_def slash_def envelope_def)
  have stale: "cas_conflict ?e (slash ''k'') (Some \<lparr>Key = ''k'', Value = Some [], LastIndex = 4\<rparr>)"
    and fresh: "\<not> cas_conflict ?e (slash ''k'') (Some \<lparr>Key = ''k'', Value = Some [], LastIndex = 5\<rparr>)"
    by (simp_all add: node_def stored_def slash_def envelope_def cas_conflict_def
        current_version_def)
  from AtomicPut_AtomicDelete_KeyModified
    [where Normalize = slash and key = "''k''" and now = 7 and val = "Some [1]"
       and options = None and previous = "Some \<lparr>Key = ''k'', Value = Some [], LastIndex = 4\<rparr>",
     OF up dec]
    AtomicPut_AtomicDelete_KeyModified
    [where Normalize = slash and key = "''k''" and now = 7 and val = "Some [1]"
       and options = None and previous = "Some \<lparr>Key = ''k'', Value = Some [], LastIndex = 5\<rparr>",
     OF up dec]
    up dec stale fresh
  show ?thesis
    by (auto simp: slash_def timeBasedVersion_def)
qed

text \<open>
  C3, as the code has it: on a node that can be reached and whose entry under the key,
  if any, decodes, \<open>AtomicPut\<close> with no previous pair and no options succeeds if and
  only if the key holds nothing; on success the pair carries the version
  \<open>timeBasedVersion now\<close>, the nanosecond within the current second, a number below
  \<open>10 ^ 9\<close>. It need not differ from the versions that the key held before: in the
  run that follows the theorem a key is written at nanosecond \<open>5\<close>, read, deleted and
  created again a second later, and gets the version \<open>5\<close> again.
\<close>

theorem AtomicPut_create:
  assumes "\<not> down e" and "decodes e (Normalize key)"
  shows
    "((\<exists>p e'. AtomicPut Normalize now e key val None None = Done ((True, Some p, None), e'))
        = (stored e (Normalize key) = None))
     \<and> (stored e (Normalize key) = None \<longrightarrow>
          (\<exists>e'. AtomicPut Normalize now e key val None None
                  = Done ((True, Some \<lparr>Key = Normalize key, Value = val,
                                       LastIndex = timeBasedVersion now\<rparr>, None), e')))
     \<and> unat (timeBasedVersion now) = now mod 1000000000"
  using AtomicPut_decision [where Normalize = Normalize and key = key and previous = None
      and now = now and val = val and options = None, OF assms]
  by (auto simp: cas_conflict_def timeBasedVersion_unat split: if_splits)

theorem AtomicPut_create_witness:
  "\<not> down (node []) \<and> decodes (node []) (slash ''k'')
   \<and> stored (node []) (slash ''k'') = None
   \<and> (\<exists>e'. AtomicPut slash 1000000005 (node []) ''k'' (Some [2]) None None
              = Done ((True, Some \<lparr>Key = ''/k'', Value = Some [2], LastIndex = 5\<rparr>, None), e'))
   \<and> unat (timeBasedVersion 1000000005) = 5"
  using AtomicPut_create [of "node []" slash "''k''" 1000000005 "Some [2]"]
  by (simp add: node_def decodes_def stored_def slash_def timeBasedVersion_def)

theorem AtomicPut_version_reused:
  "Put slash 5 (node []) ''k'' (Some [1]) None
     = Inr (node [(''/k'', marshal \<lparr>versionedValue.Value = Some [1], Version = 5\<rparr>, 0)])
   \<and> Get slash (node [(''/k'', marshal \<lparr>versionedValue.Value = Some [1], Version = 5\<rparr>, 0)]) ''k''
       = Done (Inr \<lparr>Key = ''k'', Value = Some [1], LastIndex = 5\<rparr>)
   \<and> Delete slash (node [(''/k'', marshal \<lparr>versionedValue.Value = Some [1], Version = 5\<rparr>, 0)]) ''k''
       = Inr (node [])
   \<and> AtomicPut slash 1000000005 (node []) ''k'' (Some [2]) None None
       = Done ((True, Some \<lparr>Key = ''/k'', Value = Some [2], LastIndex = 5\<rparr>, None),
               node [(''/k'', marshal \<lparr>versionedValue.Value = Some [2], Version = 5\<rparr>, 0)])"
  by (simp add: Put_def Get_def Delete_def AtomicPut_def AtomicPut_write_def client_Set_def
      client_Get_def client_Del_def client_SetNX_def node_def slash_def stored_def
      timeBasedVersion_def expiration_of_def noExpiration_def existedOne_of_def err_of_def
      Let_def)

text \<open>The \<open>Key\<close> field of the pairs that \<open>AtomicPut\<close> and \<open>Get\<close> return.\<close>

lemma AtomicPut_write_Key:
  "AtomicPut_write Normalize now e key val options = ((ok, Some p, err), e') \<Longrightarrow>
     Key p = Normalize key"
  by (auto simp: AtomicPut_write_def Let_def split: sum.splits)

lemma AtomicPut_Key:
  assumes "AtomicPut Normalize now e key val previous options = Done ((ok, Some p, err), e')"
  shows "Key p = Normalize key"
  using assms
  by (auto simp: AtomicPut_def Let_def split: outcome.splits if_splits option.splits sum.splits
      dest: AtomicPut_write_Key)

lemma Get_Key:
  assumes "Get Normalize e key = Done (Inr q)"
  shows "Key q = key"
  using assms
  by (auto simp: Get_def split: sum.splits outcome.splits if_splits)

text \<open>
  C8: the pair that a successful \<open>AtomicPut\<close> returns has the normalized key in its
  \<open>Key\<close> field, the pair that \<open>Get\<close> returns has the caller's key; for a key that
  normalization changes, the two differ.
\<close>

theorem AtomicPut_Get_Key_fields:
  assumes "AtomicPut Normalize now e key val previous options = Done ((True, Some p, None), e')"
    and "Get Normalize e2 key = Done (Inr q)"
  shows "Key p = Normalize key \<and> Key q = key \<and> (Normalize key \<noteq> key \<longrightarrow> Key p \<noteq> Key q)"
  using AtomicPut_Key [OF assms(1)] Get_Key [OF assms(2)] by simp

theorem AtomicPut_Get_Key_fields_witness:
  "AtomicPut slash 7 (node []) ''k'' (Some [1]) None None
     = Done ((True, Some \<lparr>Key = ''/k'', Value = Some [1], LastIndex = 7\<rparr>, None),
             node [(''/k'', marshal \<lparr>versionedValue.Value = Some [1], Version = 7\<rparr>, 0)])
   \<and> Get slash (node [(''/k'', marshal \<lparr>versionedValue.Value = Some [1], Version = 7\<rparr>, 0)]) ''k''
       = Done (Inr \<lparr>Key = ''k'', Value = Some [1], LastIndex = 7\<rparr>)
   \<and> Key \<lparr>Key = ''/k'', Value = Some [1], LastIndex = 7\<rparr> = slash ''k''
   \<and> Key \<lparr>Key = ''k'', Value = Some [1], LastIndex = 7\<rparr> = ''k''
   \<and> Key \<lparr>Key = ''/k'', Value = Some [1], LastIndex = 7\<rparr>
       \<noteq> Key \<lparr>Key = ''k'', Value = Some [1], LastIndex = 7\<rparr>"
proof -
  have a: "AtomicPut slash 7 (node []) ''k'' (Some [1]) None None
     = Done ((True, Some \<lparr>Key = ''/k'', Value = Some [1], LastIndex = 7\<rparr>, None),
             node [(''/k'', marshal \<lparr>versionedValue.Value = Some [1], Version = 7\<rparr>, 0)])"
    by (simp add: Get_def AtomicPut_def AtomicPut_write_def client_Get_def client_SetNX_def
        node_def slash_def stored_def timeBasedVersion_def expiration_of_def noExpiration_def
        existedOne_of_def err_of_def Let_def)
  have g: "Get slash (node [(''/k'', marshal \<lparr>versionedValue.Value = Some [1], Version = 7\<rparr>, 0)]) ''k''
       = Done (Inr \<lparr>Key = ''k'', Value = Some [1], LastIndex = 7\<rparr>)"
    by (simp add: Get_def client_Get_def node_def slash_def stored_def)
  from AtomicPut_Get_Key_fields [OF a g] a g show ?thesis
    by (simp add: slash_def)
qed

section \<open>Scanning, listing and deleting a directory\<close>

lemma keys_loop_done:
  "keys_loop scan regex allKeys 0
     = Some (if allKeys = [] then Inl ErrKeyNotFound else Inr allKeys)"
  by (subst keys_loop.simps) (simp add: endCursor_def)

lemma keys_error:
  "scan startCursor regex defaultCount = Inl err \<Longrightarrow> keys scan regex = Some (Inl err)"
  by (simp add: keys_def)

lemma keys_single_page:
  "scan startCursor regex defaultCount = Inr (0, ks) \<Longrightarrow>
     keys scan regex = Some (if ks = [] then Inl ErrKeyNotFound else Inr ks)"
  by (simp add: keys_def keys_loop_done)

lemma keys_loop_never_returns:
  assumes first: "scan startCursor regex defaultCount = Inr (c, ks)" and c: "c \<noteq> 0"
    and ret: "keys_loop scan regex allKeys nextCursor = Some r"
  shows "nextCursor = 0"
proof -
  let ?P = "\<lambda>s p (a :: string list) n (y :: error + string list). s = scan \<and> p = regex \<longrightarrow> n = (0::int)"
  have "?P scan regex allKeys nextCursor r"
  proof (rule keys_loop.raw_induct [where P = ?P, OF _ ret])
    fix loop s p a n y
    assume IH: "\<And>s p a n y. loop s p a n = Some y \<Longrightarrow> ?P s p a n y"
      and body: "(if n \<noteq> endCursor
           then case s startCursor p defaultCount of
                  Inl err \<Rightarrow> Some (Inl err)
                | Inr (n', ks) \<Rightarrow> loop s p (a @ ks) n'
           else if length a = 0 then Some (Inl ErrKeyNotFound) else Some (Inr a)) = Some y"
    show "?P s p a n y"
    proof (intro impI, rule ccontr)
      assume sp: "s = scan \<and> p = regex" and n: "n \<noteq> 0"
      from body n sp first have "loop scan regex (a @ ks) c = Some y"
        by (simp add: endCursor_def)
      from IH [OF this] have "c = 0" by simp
      with c show False by simp
    qed
  qed
  then show ?thesis by simp
qed

lemma keys_diverges:
  assumes "scan startCursor regex defaultCount = Inr (c, ks)" and "c \<noteq> 0"
  shows "keys scan regex = None"
proof (cases "keys scan regex")
  case None
  then show ?thesis .
next
  case (Some r)
  with assms have "keys_loop scan regex ks c = Some r"
    by (simp add: keys_def)
  with assms have "c = 0"
    by (rule keys_loop_never_returns)
  with assms show ?thesis by simp
qed

text \<open>A node with at most one page of entries answers the first scan in full.\<close>

lemma client_Scan_one_page:
  assumes "\<not> down e" and "length (cells e) \<le> 10"
  shows "client_Scan e startCursor pat defaultCount
           = Inr (0, filter (matches e pat) (map fst (cells e)))"
  using assms by (simp add: client_Scan_def startCursor_def defaultCount_def)

lemma keys_one_page:
  assumes "\<not> down e" and "length (cells e) \<le> 10"
  shows "keys (client_Scan e) pat
           = Some (if filter (matches e pat) (map fst (cells e)) = [] then Inl ErrKeyNotFound
                   else Inr (filter (matches e pat) (map fst (cells e))))"
  by (rule keys_single_page [where scan = "client_Scan e", OF client_Scan_one_page [OF assms]])

lemma List_DeleteTree_no_match_one_page:
  assumes "client_Scan e startCursor (Normalize directory @ ''*'') defaultCount = Inr (0, [])"
  shows "List Normalize e directory = Some (Done (Inl ErrKeyNotFound))"
    and "DeleteTree Normalize e directory = Some (Inl ErrKeyNotFound)"
  using keys_single_page [where scan = "client_Scan e", OF assms] by (simp_all add: List_def DeleteTree_def)

lemma eleven_first_page:
  "client_Scan eleven startCursor ''/a*'' defaultCount
     = Inr (10, [''/a/0'', ''/a/1'', ''/a/2'', ''/a/3'', ''/a/4'', ''/a/5'', ''/a/6'', ''/a/7'',
                 ''/a/8'', ''/a/9''])"
  by (simp add: client_Scan_def eleven_def node_def startCursor_def defaultCount_def
      star_matches_def)

lemma eleven_second_page:
  "client_Scan eleven 10 ''/a*'' defaultCount = Inr (0, [''/a/10''])"
  by (simp add: client_Scan_def eleven_def node_def startCursor_def defaultCount_def
      star_matches_def)

lemma eleven_other_directory:
  "client_Scan eleven startCursor ''/b*'' defaultCount = Inr (10, [])"
  by (simp add: client_Scan_def eleven_def node_def startCursor_def defaultCount_def
      star_matches_def)

text \<open>
  C1: the aggregator is to resume from the cursor that the call before returned and so
  to return every matching key. \<open>keys\<close> passes \<open>startCursor\<close> in every round instead.
  On the node \<open>eleven\<close> the first page ends with the cursor \<open>10\<close>, every later round
  reads the first page again, and \<open>keys\<close> never returns; the aggregator of the
  specification, \<open>scanPrefix\<close>, returns the eleven keys.
\<close>

theorem keys_rescans_first_page:
  "keys (client_Scan eleven) ''/a*'' = None
   \<and> scanPrefix (client_Scan eleven) ''/a*''
       = Some (Inr [''/a/0'', ''/a/1'', ''/a/2'', ''/a/3'', ''/a/4'', ''/a/5'', ''/a/6'',
                    ''/a/7'', ''/a/8'', ''/a/9'', ''/a/10''])"
proof
  show "keys (client_Scan eleven) ''/a*'' = None"
    by (rule keys_diverges [where scan = "client_Scan eleven", OF eleven_first_page]) simp
  show "scanPrefix (client_Scan eleven) ''/a*''
       = Some (Inr [''/a/0'', ''/a/1'', ''/a/2'', ''/a/3'', ''/a/4'', ''/a/5'', ''/a/6'',
                    ''/a/7'', ''/a/8'', ''/a/9'', ''/a/10''])"
    unfolding scanPrefix_def
    apply (subst scanPrefix_loop.simps)
    apply (simp only: eleven_first_page sum.case prod.case)
    apply (subst scanPrefix_loop.simps)
    apply (simp add: eleven_second_page startCursor_def)
    done
qed

text \<open>
  C4: \<open>List\<close> and \<open>DeleteTree\<close> of a directory that matches no key are to fail with
  \<open>ErrKeyNotFound\<close>. They do when the first page completes the scan
  (\<open>List_DeleteTree_no_match_one_page\<close>). On \<open>eleven\<close>, where no key is under the directory
  \<open>b\<close> and the first page ends with the cursor \<open>10\<close>, neither of them returns.
\<close>

theorem List_DeleteTree_no_match_many_keys:
  "List slash eleven ''b'' = None \<and> DeleteTree slash eleven ''b'' = None"
proof -
  have "keys (client_Scan eleven) ''/b*'' = None"
    by (rule keys_diverges [where scan = "client_Scan eleven", OF eleven_other_directory]) simp
  then show ?thesis
    by (simp add: List_def DeleteTree_def slash_def)
qed

section \<open>Multi-get\<close>





section \<open>Construction and the unsupported operations\<close>

text \<open>
  C9: \<open>Watch\<close>, \<open>WatchTree\<close> and \<open>NewLock\<close> return, for every input, the error
  \<open>ErrNotImplemented\<close> and no result, and leave the node as it was.
\<close>

theorem stubs_not_implemented:
  "Watch e key stopCh = (Inl ErrNotImplemented, e)
   \<and> WatchTree e directory stopCh' = (Inl ErrNotImplemented, e)
   \<and> NewLock e key' options = (Inl ErrNotImplemented, e)"
  by (simp add: Watch_def WatchTree_def NewLock_def)

text \<open>
  C10, as the code has it: \<open>New\<close> returns \<open>ErrMultipleEndpointsUnsupported\<close> exactly
  when more than one endpoint is given, \<open>ErrTLSUnsupported\<close> exactly when at most one
  endpoint is given and the options are not nil, and panics on \<open>endpoints[0]\<close> exactly
  when the list is empty and the options are nil; nothing guards the empty list.
  With two endpoints and options that are not nil the error is
  \<open>ErrMultipleEndpointsUnsupported\<close>, not \<open>ErrTLSUnsupported\<close>.
\<close>

theorem New_outcomes:
  "(New endpoints options = Done (Inl ErrMultipleEndpointsUnsupported)) = (1 < length endpoints)
   \<and> (New endpoints options = Done (Inl ErrTLSUnsupported))
       = (length endpoints \<le> 1 \<and> options \<noteq> None)
   \<and> (New endpoints options = Panic) = (endpoints = [] \<and> options = None)
   \<and> (\<exists>r. New endpoints options = Done (Inr r)) = (length endpoints = 1 \<and> options = None)"
  by (cases endpoints) (auto simp: New_def)

theorem New_outcomes_witness:
  "New [] (None :: unit option) = Panic
   \<and> New [''localhost:6379''] (Some ()) = Done (Inl ErrTLSUnsupported)"
  using New_outcomes [of "[]" "None :: unit option"]
    New_outcomes [of "[''localhost:6379'']" "Some ()"]
  by simp

theorem New_two_endpoints_and_config:
  "New [''a:6379'', ''b:6379''] (Some ()) = Done (Inl ErrMultipleEndpointsUnsupported)
   \<and> New [''a:6379'', ''b:6379''] (Some ()) \<noteq> Done (Inl ErrTLSUnsupported)"
  by (simp add: New_def)

end
